theory Spec2Isabelle
  imports Complex_Main
begin

section \<open>Python strings\<close>

text \<open>
  The routers classify a store error by \<^verbatim>\<open>str(e).lower()\<close> and the \<^verbatim>\<open>in\<close> operator.
  A string is a list of characters; \<open>lower\<close> maps the ASCII capitals to their small
  letters and keeps every other character, and \<open>str_in sub s\<close> is Python's
  \<^verbatim>\<open>sub in s\<close> (substring test). The three patterns of the source are ASCII words,
  so characters outside ASCII never take part in a match.
\<close>

definition lower_char :: "char \<Rightarrow> char" where
  "lower_char c =
     (case map_of (zip ''ABCDEFGHIJKLMNOPQRSTUVWXYZ'' ''abcdefghijklmnopqrstuvwxyz'') c of
        None \<Rightarrow> c
      | Some l \<Rightarrow> l)"

definition lower :: "string \<Rightarrow> string" where
  "lower s = map lower_char s"

fun startswith :: "string \<Rightarrow> string \<Rightarrow> bool" where
  "startswith s [] = True"
| "startswith [] (p # ps) = False"
| "startswith (c # cs) (p # ps) = (c = p \<and> startswith cs ps)"

fun str_in :: "string \<Rightarrow> string \<Rightarrow> bool" where
  "str_in sub [] = (sub = [])"
| "str_in sub (c # cs) = (startswith (c # cs) sub \<or> str_in sub cs)"

section \<open>Exceptions and responses\<close>

text \<open>
  The exception classes the routers tell apart: asyncpg's \<^verbatim>\<open>UniqueViolationError\<close> and
  \<^verbatim>\<open>ForeignKeyViolationError\<close>, \<^verbatim>\<open>sqlite3.IntegrityError\<close>, any other subclass of
  \<^verbatim>\<open>Exception\<close>, and a \<^verbatim>\<open>BaseException\<close> that is not an \<^verbatim>\<open>Exception\<close> (a cancelled
  task). An exception carries its class and its text \<^verbatim>\<open>str(e)\<close>.
\<close>

datatype exn_class =
  UniqueViolationError | ForeignKeyViolationError | IntegrityError
  | OtherException | OtherBaseException

datatype exn = Exn exn_class string

fun class_of :: "exn \<Rightarrow> exn_class" where
  "class_of (Exn k msg) = k"

fun str :: "exn \<Rightarrow> string" where
  "str (Exn k msg) = msg"

definition is_Exception :: "exn \<Rightarrow> bool" where
  "is_Exception e = (class_of e \<noteq> OtherBaseException)"

text \<open>
  What a route handler does: it returns a value (status 200), raises an
  \<^verbatim>\<open>HTTPException\<close> with a status code and a detail, or lets an exception through.
\<close>

datatype 'a outcome = Returned 'a | HTTPException nat string | Raised exn

datatype response = Response nat

definition HTTP_200_OK :: nat where "HTTP_200_OK = 200"
definition HTTP_400_BAD_REQUEST :: nat where "HTTP_400_BAD_REQUEST = 400"
definition HTTP_404_NOT_FOUND :: nat where "HTTP_404_NOT_FOUND = 404"

section \<open>The relational store\<close>

text \<open>
  Modelled from the spec: the table declarations (\<^verbatim>\<open>models\<close>) are not among the sources.
  The persisted schema is \<^verbatim>\<open>categories(id, name unique)\<close> and
  \<^verbatim>\<open>products(id, name, price, category_id fk->categories.id, created_at date)\<close>.
  A table is the list of its rows in insertion order; a price is the rational value of
  the stored number and a date is a day number.
\<close>

record category =
  c_id :: nat
  c_name :: string

record product =
  p_id :: nat
  p_name :: string
  p_price :: rat
  p_category_id :: nat
  p_created_at :: int

record store =
  categories :: "category list"
  products :: "product list"

definition empty_store :: store where
  "empty_store = \<lparr>categories = [], products = []\<rparr>"

text \<open>
  The store is an external collaborator. What the code depends on is kept as an
  environment: which backend raises the constraint errors (the test configuration runs
  SQLite, the router also imports asyncpg's error classes), whether the foreign key is
  enforced by the store, and, for every query of the controllers, a failure that has
  nothing to do with the data (a lost connection, a timeout), which the query raises
  instead of running.
\<close>

datatype backend = SQLite | PostgreSQL

datatype query =
  Q_read_categories | Q_write_category | Q_read_category
  | Q_check_category_has_products | Q_purge_category

record env =
  backend :: backend
  foreign_keys :: bool
  fault :: "query \<Rightarrow> exn option"

definition no_fault :: "query \<Rightarrow> exn option" where
  "no_fault q = None"

definition unique_violation :: "backend \<Rightarrow> exn" where
  "unique_violation b =
     (case b of
        SQLite \<Rightarrow> Exn IntegrityError ''UNIQUE constraint failed: categories.name''
      | PostgreSQL \<Rightarrow>
          Exn UniqueViolationError ''duplicate key value violates unique constraint'')"

definition foreign_key_violation :: "backend \<Rightarrow> exn" where
  "foreign_key_violation b =
     (case b of
        SQLite \<Rightarrow> Exn IntegrityError ''FOREIGN KEY constraint failed''
      | PostgreSQL \<Rightarrow>
          Exn ForeignKeyViolationError
            ''update or delete on table violates foreign key constraint'')"

text \<open>The identifier the store assigns to a new row: one more than the largest in use.\<close>

definition next_id :: "nat list \<Rightarrow> nat" where
  "next_id ids = Suc (fold max ids 0)"

text \<open>\<^verbatim>\<open>fetch_one\<close>: the first row of the result, or \<^verbatim>\<open>None\<close>.\<close>

definition fetch_one :: "'a list \<Rightarrow> 'a option" where
  "fetch_one rows = (case rows of [] \<Rightarrow> None | r # _ \<Rightarrow> Some r)"

section \<open>Controllers (controllers/categories.py)\<close>

definition read_categories :: "env \<Rightarrow> store \<Rightarrow> exn + category list" where
  "read_categories env s =
     (case fault env Q_read_categories of
        Some e \<Rightarrow> Inl e
      | None \<Rightarrow> Inr (categories s))"

text \<open>
  \<^verbatim>\<open>write_category\<close> runs the insert with no check of its own: a name that is already
  in the table is rejected by the store's uniqueness constraint.
\<close>

definition write_category :: "env \<Rightarrow> string \<Rightarrow> store \<Rightarrow> exn + (category \<times> store)" where
  "write_category env name s =
     (case fault env Q_write_category of
        Some e \<Rightarrow> Inl e
      | None \<Rightarrow>
          if name \<in> set (map c_name (categories s))
          then Inl (unique_violation (backend env))
          else
            let category_id = next_id (map c_id (categories s));
                content = \<lparr>c_id = category_id, c_name = name\<rparr>
            in Inr (content, s\<lparr>categories := categories s @ [content]\<rparr>))"

definition read_category :: "env \<Rightarrow> string \<Rightarrow> store \<Rightarrow> exn + category option" where
  "read_category env name s =
     (case fault env Q_read_category of
        Some e \<Rightarrow> Inl e
      | None \<Rightarrow> Inr (fetch_one (filter (\<lambda>c. c_name c = name) (categories s))))"

text \<open>
  \<^verbatim>\<open>select([products.c.id]).where(products.c.category_id == category_id).limit(1)\<close>,
  then \<^verbatim>\<open>fetch_one\<close> and \<^verbatim>\<open>result is not None\<close>.
\<close>

definition has_products_query :: "nat \<Rightarrow> store \<Rightarrow> nat list" where
  "has_products_query category_id s =
     take 1 (map p_id (filter (\<lambda>p. p_category_id p = category_id) (products s)))"

definition check_category_has_products :: "env \<Rightarrow> nat \<Rightarrow> store \<Rightarrow> exn + bool" where
  "check_category_has_products env category_id s =
     (case fault env Q_check_category_has_products of
        Some e \<Rightarrow> Inl e
      | None \<Rightarrow> Inr (fetch_one (has_products_query category_id s) \<noteq> None))"

text \<open>
  \<^verbatim>\<open>categories.delete().where(categories.c.name == name)\<close>. Where the store enforces
  the foreign key it rejects the statement as a whole when a product references a row
  that the statement would delete.
\<close>

definition purge_category :: "env \<Rightarrow> string \<Rightarrow> store \<Rightarrow> exn + store" where
  "purge_category env name s =
     (case fault env Q_purge_category of
        Some e \<Rightarrow> Inl e
      | None \<Rightarrow>
          let doomed = map c_id (filter (\<lambda>c. c_name c = name) (categories s))
          in if foreign_keys env \<and> list_ex (\<lambda>p. p_category_id p \<in> set doomed) (products s)
             then Inl (foreign_key_violation (backend env))
             else Inr (s\<lparr>categories := filter (\<lambda>c. c_name c \<noteq> name) (categories s)\<rparr>))"

section \<open>Routers (routers/categories.py)\<close>

definition get_categories :: "env \<Rightarrow> store \<Rightarrow> category list outcome \<times> store" where
  "get_categories env s =
     (case read_categories env s of
        Inl e \<Rightarrow> (Raised e, s)
      | Inr rows \<Rightarrow> (Returned rows, s))"

text \<open>
  \<^verbatim>\<open>add_category\<close> catches \<^verbatim>\<open>(UniqueViolationError, sqlite3.IntegrityError)\<close> only, and
  turns the error into the 400 response when its lowered text holds \<^verbatim>\<open>unique\<close> or
  \<^verbatim>\<open>constraint\<close>; otherwise it raises the error again.
\<close>

definition add_category :: "env \<Rightarrow> string \<Rightarrow> store \<Rightarrow> category outcome \<times> store" where
  "add_category env name s =
     (case write_category env name s of
        Inr (content, s') \<Rightarrow> (Returned content, s')
      | Inl e \<Rightarrow>
          if class_of e = UniqueViolationError \<or> class_of e = IntegrityError
          then
            let error_str = lower (str e)
            in if str_in ''unique'' error_str \<or> str_in ''constraint'' error_str
               then (HTTPException HTTP_400_BAD_REQUEST ''Category already exists'', s)
               else (Raised e, s)
          else (Raised e, s))"

text \<open>
  \<^verbatim>\<open>delete_category\<close>: look the name up; with a row, probe for products and refuse when
  there is one; otherwise purge, and turn an \<^verbatim>\<open>Exception\<close> of the purge into the 400
  response when its lowered text holds \<^verbatim>\<open>foreign\<close> or \<^verbatim>\<open>constraint\<close>; with no row,
  the 400 response for a category that does not exist. The look-up and the probe are
  outside the \<^verbatim>\<open>try\<close>.
\<close>

definition delete_category :: "env \<Rightarrow> string \<Rightarrow> store \<Rightarrow> response outcome \<times> store" where
  "delete_category env name s =
     (case read_category env name s of
        Inl e \<Rightarrow> (Raised e, s)
      | Inr None \<Rightarrow> (HTTPException HTTP_400_BAD_REQUEST ''Category does not exist'', s)
      | Inr (Some check_category) \<Rightarrow>
          (case check_category_has_products env (c_id check_category) s of
             Inl e \<Rightarrow> (Raised e, s)
           | Inr has_products \<Rightarrow>
               if has_products
               then (HTTPException HTTP_400_BAD_REQUEST
                       ''There are still products in the category'', s)
               else
                 (case purge_category env name s of
                    Inr s' \<Rightarrow> (Returned (Response HTTP_200_OK), s')
                  | Inl e \<Rightarrow>
                      if is_Exception e
                      then
                        let error_str = lower (str e)
                        in if str_in ''foreign'' error_str \<or> str_in ''constraint'' error_str
                           then (HTTPException HTTP_400_BAD_REQUEST
                                   ''There are still products in the category'', s)
                           else (Raised e, s)
                      else (Raised e, s))))"

section \<open>Product operations\<close>

text \<open>
  The product controllers and routers are not among the sources; only their tests are.
  The definitions of this section follow the spec (section 4.2 and the table of
  responses) and the details the tests fix.
\<close>

text \<open>
  Modelled from the spec: the product schema is missing; a product in a response has the
  fields \<^verbatim>\<open>id, name, price, category_id, category_name, created_at\<close>.
\<close>

record product_view =
  v_id :: nat
  v_name :: string
  v_price :: rat
  v_category_id :: nat
  v_category_name :: string
  v_created_at :: int

text \<open>
  Modelled from the spec: the response of a product is missing; it is the stored row
  together with the name of its category, which is not a stored column.
\<close>

definition view :: "product \<Rightarrow> string \<Rightarrow> product_view" where
  "view p category_name =
     \<lparr>v_id = p_id p, v_name = p_name p, v_price = p_price p,
      v_category_id = p_category_id p, v_category_name = category_name,
      v_created_at = p_created_at p\<rparr>"

text \<open>
  Modelled from the spec: the creation of a product is missing. The category name is
  resolved with \<open>read_category\<close>; an unresolved name is the 404 response
  \<^verbatim>\<open>Category does not exist\<close> that the tests expect, and nothing is inserted.
  Otherwise the row is inserted with the resolved \<open>category_id\<close> and \<open>created_at\<close>
  equal to the current date, and the created product is returned together with
  \<open>category_id\<close> and \<open>category_name\<close>.
\<close>

definition product_create ::
  "env \<Rightarrow> int \<Rightarrow> string \<Rightarrow> rat \<Rightarrow> string \<Rightarrow> store \<Rightarrow> product_view outcome \<times> store" where
  "product_create env today name price category_name s =
     (case read_category env category_name s of
        Inl e \<Rightarrow> (Raised e, s)
      | Inr None \<Rightarrow> (HTTPException HTTP_404_NOT_FOUND ''Category does not exist'', s)
      | Inr (Some c) \<Rightarrow>
          let row = \<lparr>p_id = next_id (map p_id (products s)), p_name = name,
                     p_price = price, p_category_id = c_id c, p_created_at = today\<rparr>
          in (Returned (view row (c_name c)), s\<lparr>products := products s @ [row]\<rparr>))"

text \<open>
  Modelled from the spec: the insert of the product row, the second query of the
  creation, is missing. The store assigns the identifier; where it enforces the foreign
  key it rejects a row whose \<open>category_id\<close> is not the identifier of a category row.
\<close>

definition insert_product ::
  "env \<Rightarrow> string \<Rightarrow> rat \<Rightarrow> nat \<Rightarrow> int \<Rightarrow> store \<Rightarrow> exn + (product \<times> store)" where
  "insert_product env name price category_id today s =
     (if foreign_keys env \<and> category_id \<notin> set (map c_id (categories s))
      then Inl (foreign_key_violation (backend env))
      else
        let row = \<lparr>p_id = next_id (map p_id (products s)), p_name = name,
                   p_price = price, p_category_id = category_id, p_created_at = today\<rparr>
        in Inr (row, s\<lparr>products := products s @ [row]\<rparr>))"

text \<open>
  Modelled from the spec: the deletion of a product is missing. A product is deleted by
  its identifier, and the operation fails with a 404 response when no row has it.
\<close>

definition product_delete :: "nat \<Rightarrow> store \<Rightarrow> response outcome \<times> store" where
  "product_delete product_id s =
     (if product_id \<in> set (map p_id (products s))
      then (Returned (Response HTTP_200_OK),
            s\<lparr>products := filter (\<lambda>p. p_id p \<noteq> product_id) (products s)\<rparr>)
      else (HTTPException HTTP_404_NOT_FOUND ''Product does not exist'', s))"

text \<open>
  Modelled from the spec: the query of the product list is missing. Its rows are the
  products joined with their category, which gives \<open>category_name\<close>.
\<close>

definition joined :: "store \<Rightarrow> product_view list" where
  "joined s =
     concat (map (\<lambda>p. map (\<lambda>c. view p (c_name c))
                         (filter (\<lambda>c. c_id c = p_category_id p) (categories s)))
                 (products s))"

text \<open>
  Modelled from the spec: the filters of the product list are missing. A row matches
  when it agrees with every filter that is supplied: the category by name, the date by
  equality of the day.
\<close>

definition matches :: "string option \<Rightarrow> int option \<Rightarrow> product_view \<Rightarrow> bool" where
  "matches select_by_category select_by_date v =
     ((case select_by_category of None \<Rightarrow> True | Some n \<Rightarrow> v_category_name v = n) \<and>
      (case select_by_date of None \<Rightarrow> True | Some d \<Rightarrow> v_created_at v = d))"

text \<open>
  Modelled from the spec: the product list is missing. With \<open>read_all\<close> the filters
  are ignored; otherwise the matching rows are kept (the spec leaves open what happens
  when no filter is supplied; here every row matches). When sorting is requested the rows
  are ordered by price, descending for \<open>True\<close> (from expensive to cheap) and ascending
  for \<open>False\<close>; rows of equal price keep their order.
\<close>

definition product_list ::
  "bool \<Rightarrow> string option \<Rightarrow> int option \<Rightarrow> bool option \<Rightarrow> store \<Rightarrow> product_view list" where
  "product_list read_all select_by_category select_by_date sorting s =
     (let rows = (if read_all then joined s
                  else filter (matches select_by_category select_by_date) (joined s))
      in case sorting of
           None \<Rightarrow> rows
         | Some True \<Rightarrow> sort_key (\<lambda>v. - v_price v) rows
         | Some False \<Rightarrow> sort_key v_price rows)"

section \<open>Store invariants and reachable states\<close>

definition ref_integrity :: "store \<Rightarrow> bool" where
  "ref_integrity s =
     list_all (\<lambda>p. p_category_id p \<in> set (map c_id (categories s))) (products s)"

definition store_inv :: "store \<Rightarrow> bool" where
  "store_inv s \<longleftrightarrow>
     ref_integrity s \<and> distinct (map c_name (categories s)) \<and>
     distinct (map c_id (categories s)) \<and> distinct (map p_id (products s))"

definition keys_unique :: "store \<Rightarrow> bool" where
  "keys_unique s \<longleftrightarrow>
     distinct (map c_name (categories s)) \<and> distinct (map c_id (categories s)) \<and>
     distinct (map p_id (products s))"

text \<open>
  Requests run concurrently and a handler gives way at every \<^verbatim>\<open>await\<close>, so the
  queries of different requests interleave; there is no transaction around the queries
  of one handler. A request that has run a query and has another one to come is a task:
  \<open>delete_category\<close> after its look-up returned a row and before the probe, the same
  handler after the probe found no product and before the purge, and the creation of a
  product after the category was resolved and before the insert.
\<close>

datatype task =
  Probe string category
  | Purge string
  | Insert string rat category

text \<open>
  The stores the service can reach from the empty store, together with the requests in
  flight, one query at a time, whatever the environment does. The flag says whether the
  store enforces the foreign key. \<open>add_category\<close> runs a single query, and so does
  the deletion of a product; a request in flight may also end without another query (the
  probe found a product, a query failed). The product steps are the operations modelled
  from the spec.
\<close>

inductive reachable :: "bool \<Rightarrow> store \<Rightarrow> task list \<Rightarrow> bool" for fk :: bool where
  reach_empty: "reachable fk empty_store []"
| reach_add_category:
    "reachable fk s ts \<Longrightarrow> reachable fk (snd (add_category env name s)) ts"
| reach_delete_lookup:
    "reachable fk s ts \<Longrightarrow> read_category env name s = Inr (Some check_category) \<Longrightarrow>
     reachable fk s (Probe name check_category # ts)"
| reach_delete_probe:
    "reachable fk s ts \<Longrightarrow> Probe name check_category \<in> set ts \<Longrightarrow>
     check_category_has_products env (c_id check_category) s = Inr False \<Longrightarrow>
     reachable fk s (Purge name # remove1 (Probe name check_category) ts)"
| reach_delete_purge:
    "reachable fk s ts \<Longrightarrow> Purge name \<in> set ts \<Longrightarrow> foreign_keys env = fk \<Longrightarrow>
     purge_category env name s = Inr s' \<Longrightarrow>
     reachable fk s' (remove1 (Purge name) ts)"
| reach_create_resolve:
    "reachable fk s ts \<Longrightarrow> read_category env category_name s = Inr (Some c) \<Longrightarrow>
     reachable fk s (Insert name price c # ts)"
| reach_create_insert:
    "reachable fk s ts \<Longrightarrow> Insert name price c \<in> set ts \<Longrightarrow> foreign_keys env = fk \<Longrightarrow>
     insert_product env name price (c_id c) today s = Inr (row, s') \<Longrightarrow>
     reachable fk s' (remove1 (Insert name price c) ts)"
| reach_product_delete:
    "reachable fk s ts \<Longrightarrow> reachable fk (snd (product_delete product_id s)) ts"
| reach_end:
    "reachable fk s ts \<Longrightarrow> t \<in> set ts \<Longrightarrow> reachable fk s (remove1 t ts)"

section \<open>Sample environments and stores\<close>

definition env_sqlite :: env where
  "env_sqlite = \<lparr>backend = SQLite, foreign_keys = False, fault = no_fault\<rparr>"

definition env_postgres :: env where
  "env_postgres = \<lparr>backend = PostgreSQL, foreign_keys = True, fault = no_fault\<rparr>"

definition books :: category where
  "books = \<lparr>c_id = 1, c_name = ''Books''\<rparr>"

definition tech :: category where
  "tech = \<lparr>c_id = 2, c_name = ''Tech''\<rparr>"

definition novel :: product where
  "novel = \<lparr>p_id = 1, p_name = ''Novel'', p_price = 20, p_category_id = 1,
            p_created_at = 739000\<rparr>"

definition shop :: store where
  "shop = \<lparr>categories = [books, tech], products = [novel]\<rparr>"

definition laptop :: product where
  "laptop = \<lparr>p_id = 1, p_name = ''Laptop'', p_price = 1500, p_category_id = 2,
             p_created_at = 739000\<rparr>"

definition mouse :: product where
  "mouse = \<lparr>p_id = 2, p_name = ''Mouse'', p_price = 25, p_category_id = 2,
            p_created_at = 739000\<rparr>"

definition jeans :: product where
  "jeans = \<lparr>p_id = 3, p_name = ''Jeans'', p_price = 5999 / 100, p_category_id = 1,
            p_created_at = 739001\<rparr>"

definition priced :: store where
  "priced = \<lparr>categories = [books, tech], products = [laptop, mouse, jeans]\<rparr>"

definition appliances :: category where
  "appliances = \<lparr>c_id = 1, c_name = ''Appliances''\<rparr>"

definition blender :: product where
  "blender = \<lparr>p_id = 1, p_name = ''Blender'', p_price = 99, p_category_id = 1,
              p_created_at = 739000\<rparr>"

definition kitchen :: store where
  "kitchen = \<lparr>categories = [appliances], products = []\<rparr>"

definition stocked :: store where
  "stocked = \<lparr>categories = [appliances], products = [blender]\<rparr>"

definition orphaned :: store where
  "orphaned = \<lparr>categories = [], products = [blender]\<rparr>"

text \<open>An environment in which one query fails with a given exception.\<close>

definition failing :: "query \<Rightarrow> exn \<Rightarrow> env" where
  "failing q e = \<lparr>backend = SQLite, foreign_keys = False, fault = no_fault(q \<mapsto> e)\<rparr>"

definition locked :: exn where
  "locked = Exn IntegrityError ''database is locked''"

definition lost :: exn where
  "lost = Exn OtherException ''connection lost''"

section \<open>The existence probe\<close>

lemma fetch_one_eq_None: "fetch_one rows = None \<longleftrightarrow> rows = []"
  by (cases rows) (simp_all add: fetch_one_def)

lemma has_products_query_length: "length (has_products_query category_id s) \<le> 1"
  by (simp add: has_products_query_def)

lemma has_products_query_empty:
  "has_products_query category_id s = [] \<longleftrightarrow>
     (\<forall>p \<in> set (products s). p_category_id p \<noteq> category_id)"
  by (auto simp: has_products_query_def filter_empty_conv)

section \<open>Auxiliary facts\<close>

lemma unique_violation_caught:
  "class_of (unique_violation b) = UniqueViolationError \<or>
   class_of (unique_violation b) = IntegrityError"
  by (cases b) (simp_all add: unique_violation_def)

lemma unique_violation_text: "str_in ''unique'' (lower (str (unique_violation b)))"
  by (cases b) (simp_all add: unique_violation_def lower_def lower_char_def)

lemma foreign_key_violation_text: "str_in ''foreign'' (lower (str (foreign_key_violation b)))"
  by (cases b) (simp_all add: foreign_key_violation_def lower_def lower_char_def)

lemma foreign_key_violation_is_Exception: "is_Exception (foreign_key_violation b)"
  by (cases b) (simp_all add: foreign_key_violation_def is_Exception_def)

lemma fold_max_ge: "a \<le> fold max ids (a::nat)"
  by (induction ids arbitrary: a) (auto intro: order_trans [OF max.cobounded2])

lemma fold_max_upper: "i \<in> set ids \<Longrightarrow> i \<le> fold max ids (a::nat)"
proof (induction ids arbitrary: a)
  case Nil
  then show ?case by simp
next
  case (Cons j ids)
  show ?case
  proof (cases "i = j")
    case True
    have "j \<le> max j a" by simp
    also have "\<dots> \<le> fold max ids (max j a)" by (rule fold_max_ge)
    finally show ?thesis using True by simp
  next
    case False
    with Cons.prems have "i \<in> set ids" by simp
    then show ?thesis using Cons.IH by simp
  qed
qed

lemma next_id_fresh: "next_id ids \<notin> set ids"
proof
  assume "next_id ids \<in> set ids"
  then have "next_id ids \<le> fold max ids 0" by (rule fold_max_upper)
  then show False by (simp add: next_id_def)
qed

lemma fetch_one_filter_None:
  "fetch_one (filter P xs) = None \<longleftrightarrow> (\<forall>x \<in> set xs. \<not> P x)"
  by (simp add: fetch_one_eq_None filter_empty_conv)

lemma fetch_one_filter_Some:
  "fetch_one (filter P xs) = Some x \<Longrightarrow> x \<in> set xs \<and> P x"
proof -
  assume "fetch_one (filter P xs) = Some x"
  then obtain ys where "filter P xs = x # ys"
    by (cases "filter P xs") (simp_all add: fetch_one_def)
  then have "x \<in> set (filter P xs)" by simp
  then show ?thesis by simp
qed

lemma distinct_map_filter_single:
  "distinct (map f xs) \<Longrightarrow> x \<in> set xs \<Longrightarrow> filter (\<lambda>y. f y = f x) xs = [x]"
proof (induction xs)
  case Nil
  then show ?case by simp
next
  case (Cons a xs)
  show ?case
  proof (cases "a = x")
    case True
    with Cons.prems have "f x \<notin> f ` set xs" by simp
    then have "\<forall>y \<in> set xs. f y \<noteq> f x" by (metis imageI)
    then have "filter (\<lambda>y. f y = f x) xs = []" by (simp add: filter_empty_conv)
    with True show ?thesis by simp
  next
    case False
    with Cons.prems have "x \<in> set xs" and "distinct (map f xs)" by simp_all
    moreover from Cons.prems \<open>x \<in> set xs\<close> have "f a \<noteq> f x"
      by (metis distinct.simps(2) imageI list.simps(9) set_map)
    ultimately show ?thesis using Cons.IH by simp
  qed
qed

lemma has_products_probe:
  "(fetch_one (has_products_query category_id s) \<noteq> None) \<longleftrightarrow>
     (\<exists>p \<in> set (products s). p_category_id p = category_id)"
  by (simp add: fetch_one_eq_None has_products_query_empty)

lemmas sample_defs =
  env_sqlite_def env_postgres_def no_fault_def shop_def books_def tech_def novel_def
  empty_store_def failing_def locked_def lost_def laptop_def mouse_def jeans_def priced_def
  appliances_def blender_def kitchen_def stocked_def orphaned_def

lemmas status_defs = HTTP_200_OK_def HTTP_400_BAD_REQUEST_def HTTP_404_NOT_FOUND_def

lemma read_category_None:
  "fault env Q_read_category = None \<Longrightarrow> name \<notin> set (map c_name (categories s)) \<Longrightarrow>
   read_category env name s = Inr None"
  by (auto simp: read_category_def fetch_one_filter_None)

lemma read_category_SomeD:
  "read_category env name s = Inr (Some c) \<Longrightarrow> c \<in> set (categories s) \<and> c_name c = name"
  by (auto simp: read_category_def split: option.splits dest: fetch_one_filter_Some)

lemma read_category_Some:
  assumes "fault env Q_read_category = None" and "distinct (map c_name (categories s))"
    and "c \<in> set (categories s)" and "c_name c = name"
  shows "read_category env name s = Inr (Some c)"
proof -
  have "filter (\<lambda>y. c_name y = c_name c) (categories s) = [c]"
    using assms(2,3) by (rule distinct_map_filter_single)
  with assms(1,4) show ?thesis by (simp add: read_category_def fetch_one_def)
qed

lemma check_category_has_products_value:
  "fault env Q_check_category_has_products = None \<Longrightarrow>
   check_category_has_products env category_id s =
     Inr (\<exists>p \<in> set (products s). p_category_id p = category_id)"
  using has_products_probe [of category_id s]
  by (simp add: check_category_has_products_def)

lemma purge_category_unreferenced:
  assumes "fault env Q_purge_category = None" and "distinct (map c_name (categories s))"
    and "c \<in> set (categories s)" and "c_name c = name"
    and "\<not> (\<exists>p \<in> set (products s). p_category_id p = c_id c)"
  shows "purge_category env name s =
           Inr (s\<lparr>categories := filter (\<lambda>c. c_name c \<noteq> name) (categories s)\<rparr>)"
proof -
  have "filter (\<lambda>y. c_name y = c_name c) (categories s) = [c]"
    using assms(2,3) by (rule distinct_map_filter_single)
  with assms(4) have "map c_id (filter (\<lambda>c. c_name c = name) (categories s)) = [c_id c]"
    by auto
  with assms(1,5) show ?thesis
    by (simp add: purge_category_def list_ex_iff)
qed

lemma write_category_duplicate:
  "fault env Q_write_category = None \<Longrightarrow> name \<in> set (map c_name (categories s)) \<Longrightarrow>
   write_category env name s = Inl (unique_violation (backend env))"
  by (simp add: write_category_def)

lemma write_category_fresh:
  "fault env Q_write_category = None \<Longrightarrow> name \<notin> set (map c_name (categories s)) \<Longrightarrow>
   write_category env name s =
     Inr (\<lparr>c_id = next_id (map c_id (categories s)), c_name = name\<rparr>,
          s\<lparr>categories := categories s @
             [\<lparr>c_id = next_id (map c_id (categories s)), c_name = name\<rparr>]\<rparr>)"
  by (simp add: write_category_def Let_def)

lemma add_category_of_violation:
  "write_category env name s = Inl (unique_violation b) \<Longrightarrow>
   add_category env name s =
     (HTTPException HTTP_400_BAD_REQUEST ''Category already exists'', s)"
  using unique_violation_caught [of b] unique_violation_text [of b]
  by (simp add: add_category_def Let_def)

lemmas model_defs =
  read_categories_def write_category_def read_category_def has_products_query_def
  check_category_has_products_def purge_category_def get_categories_def add_category_def
  delete_category_def fetch_one_def next_id_def unique_violation_def
  foreign_key_violation_def is_Exception_def lower_def lower_char_def Let_def
  insert_product_def

lemma ref_integrity_iff:
  "ref_integrity s \<longleftrightarrow>
     (\<forall>p \<in> set (products s). \<exists>c \<in> set (categories s). c_id c = p_category_id p)"
proof -
  have "(x \<in> c_id ` A) = (\<exists>c \<in> A. c_id c = x)" for x :: nat and A :: "category set"
    by auto
  then show ?thesis by (simp add: ref_integrity_def list_all_iff)
qed

lemma distinct_map_neq:
  "distinct (map f xs) \<Longrightarrow> x \<in> set xs \<Longrightarrow> y \<in> set xs \<Longrightarrow> x \<noteq> y \<Longrightarrow> f x \<noteq> f y"
  by (auto simp: distinct_map dest: inj_onD)

lemma write_category_InrD:
  assumes "write_category env name s = Inr (c, s')"
  shows "name \<notin> set (map c_name (categories s)) \<and>
         c = \<lparr>c_id = next_id (map c_id (categories s)), c_name = name\<rparr> \<and>
         s' = s\<lparr>categories := categories s @ [c]\<rparr>"
  using assms by (auto simp: write_category_def Let_def split: option.splits if_splits)

lemma purge_category_InrD:
  assumes "purge_category env name s = Inr s'"
  shows "s' = s\<lparr>categories := filter (\<lambda>c. c_name c \<noteq> name) (categories s)\<rparr>"
  using assms by (auto simp: purge_category_def Let_def split: option.splits if_splits)

lemma check_category_has_products_FalseD:
  assumes "check_category_has_products env category_id s = Inr False"
  shows "\<forall>p \<in> set (products s). p_category_id p \<noteq> category_id"
  using assms has_products_probe [of category_id s]
  by (auto simp: check_category_has_products_def split: option.splits)

text \<open>
  The only way \<open>delete_category\<close> changes the store: the look-up found a row of that
  name, the probe found no product of it, and the rows of that name are gone.
\<close>

lemma delete_category_cases:
  "snd (delete_category env name s) = s \<or>
   (\<exists>c. c \<in> set (categories s) \<and> c_name c = name \<and>
        (\<forall>p \<in> set (products s). p_category_id p \<noteq> c_id c) \<and>
        snd (delete_category env name s) =
          s\<lparr>categories := filter (\<lambda>c. c_name c \<noteq> name) (categories s)\<rparr>)"
proof (cases "read_category env name s")
  case (Inl e)
  then show ?thesis by (simp add: delete_category_def)
next
  case (Inr found)
  show ?thesis
  proof (cases found)
    case None
    with Inr show ?thesis by (simp add: delete_category_def)
  next
    case (Some c)
    with Inr have c: "c \<in> set (categories s) \<and> c_name c = name"
      by (simp add: read_category_SomeD)
    show ?thesis
    proof (cases "check_category_has_products env (c_id c) s")
      case (Inl e)
      with Inr Some show ?thesis by (simp add: delete_category_def)
    next
      case has: (Inr has_products)
      show ?thesis
      proof (cases has_products)
        case True
        with Inr Some has show ?thesis by (simp add: delete_category_def)
      next
        case False
        with has have np: "\<forall>p \<in> set (products s). p_category_id p \<noteq> c_id c"
          by (simp add: check_category_has_products_FalseD)
        show ?thesis
        proof (cases "purge_category env name s")
          case (Inl e)
          with Inr Some has False show ?thesis
            by (simp add: delete_category_def Let_def)
        next
          case purged: (Inr s')
          then have "s' = s\<lparr>categories := filter (\<lambda>c. c_name c \<noteq> name) (categories s)\<rparr>"
            by (rule purge_category_InrD)
          with Inr Some has False purged c np show ?thesis
            by (auto simp: delete_category_def)
        qed
      qed
    qed
  qed
qed

lemma store_inv_purged:
  assumes inv: "store_inv s" and c: "c \<in> set (categories s)" and n: "c_name c = name"
    and np: "\<forall>p \<in> set (products s). p_category_id p \<noteq> c_id c"
  shows "store_inv (s\<lparr>categories := filter (\<lambda>c. c_name c \<noteq> name) (categories s)\<rparr>)"
proof -
  from inv have ri: "ref_integrity s" and dn: "distinct (map c_name (categories s))"
    and di: "distinct (map c_id (categories s))" and dp: "distinct (map p_id (products s))"
    by (simp_all add: store_inv_def)
  have "\<exists>k \<in> set (filter (\<lambda>c. c_name c \<noteq> name) (categories s)). c_id k = p_category_id p"
    if p: "p \<in> set (products s)" for p
  proof -
    from ri p obtain k where k: "k \<in> set (categories s)" and ki: "c_id k = p_category_id p"
      by (auto simp: ref_integrity_iff)
    from np p ki have "k \<noteq> c" by auto
    with dn k c have "c_name k \<noteq> c_name c" by (rule distinct_map_neq)
    with k n ki show ?thesis by auto
  qed
  then have "ref_integrity (s\<lparr>categories := filter (\<lambda>c. c_name c \<noteq> name) (categories s)\<rparr>)"
    by (simp add: ref_integrity_iff)
  with dn di dp show ?thesis
    by (simp add: store_inv_def distinct_map_filter)
qed

lemma delete_category_store_inv:
  assumes "store_inv s"
  shows "store_inv (snd (delete_category env name s))"
  using delete_category_cases [of env name s] assms
  by (auto intro: store_inv_purged)

lemma delete_category_keeps_referenced:
  assumes dn: "distinct (map c_name (categories s))" and k: "k \<in> set (categories s)"
    and p: "p \<in> set (products s)" and r: "p_category_id p = c_id k"
  shows "k \<in> set (categories (snd (delete_category env name s)))"
  using delete_category_cases [of env name s]
proof
  assume "snd (delete_category env name s) = s"
  with k show ?thesis by simp
next
  assume "\<exists>c. c \<in> set (categories s) \<and> c_name c = name \<and>
        (\<forall>p \<in> set (products s). p_category_id p \<noteq> c_id c) \<and>
        snd (delete_category env name s) =
          s\<lparr>categories := filter (\<lambda>c. c_name c \<noteq> name) (categories s)\<rparr>"
  then obtain c where c: "c \<in> set (categories s)" and n: "c_name c = name"
    and np: "\<forall>p \<in> set (products s). p_category_id p \<noteq> c_id c"
    and s': "snd (delete_category env name s) =
          s\<lparr>categories := filter (\<lambda>c. c_name c \<noteq> name) (categories s)\<rparr>"
    by blast
  from np p r have "k \<noteq> c" by auto
  with dn k c have "c_name k \<noteq> c_name c" by (rule distinct_map_neq)
  with k n s' show ?thesis by simp
qed

lemma add_category_store_inv:
  assumes "store_inv s"
  shows "store_inv (snd (add_category env name s))"
proof (cases "write_category env name s")
  case (Inl e)
  with assms show ?thesis by (simp add: add_category_def Let_def)
next
  case (Inr r)
  obtain c s' where r: "r = (c, s')" by (cases r)
  with Inr have "write_category env name s = Inr (c, s')" by simp
  then have d: "name \<notin> set (map c_name (categories s)) \<and>
         c = \<lparr>c_id = next_id (map c_id (categories s)), c_name = name\<rparr> \<and>
         s' = s\<lparr>categories := categories s @ [c]\<rparr>"
    by (rule write_category_InrD)
  have "c_id c \<notin> set (map c_id (categories s))"
    using d next_id_fresh [of "map c_id (categories s)"] by simp
  moreover have "c_name c \<notin> set (map c_name (categories s))"
    using d by simp
  ultimately have "store_inv (s\<lparr>categories := categories s @ [c]\<rparr>)"
    using assms by (auto simp: store_inv_def ref_integrity_iff)
  with Inr r d show ?thesis by (simp add: add_category_def)
qed

lemma product_create_store_inv:
  assumes "store_inv s"
  shows "store_inv (snd (product_create env today name price category_name s))"
proof (cases "read_category env category_name s")
  case (Inl e)
  with assms show ?thesis by (simp add: product_create_def)
next
  case (Inr found)
  show ?thesis
  proof (cases found)
    case None
    with Inr assms show ?thesis by (simp add: product_create_def)
  next
    case (Some c)
    with Inr have c: "c \<in> set (categories s)" by (simp add: read_category_SomeD)
    have "next_id (map p_id (products s)) \<notin> set (map p_id (products s))"
      by (rule next_id_fresh)
    with assms c Inr Some show ?thesis
      by (auto simp: product_create_def Let_def store_inv_def ref_integrity_iff)
  qed
qed

lemma product_delete_store_inv:
  assumes "store_inv s"
  shows "store_inv (snd (product_delete product_id s))"
  using assms
  by (auto simp: product_delete_def store_inv_def ref_integrity_iff distinct_map_filter)

text \<open>
  The handlers run without another request in between are the compositions of their
  queries.
\<close>

lemma delete_category_steps:
  "snd (delete_category env name s) = s \<or>
   (\<exists>c s'. read_category env name s = Inr (Some c) \<and>
      check_category_has_products env (c_id c) s = Inr False \<and>
      purge_category env name s = Inr s' \<and> snd (delete_category env name s) = s')"
proof (cases "read_category env name s")
  case (Inl e)
  then show ?thesis by (simp add: delete_category_def)
next
  case (Inr found)
  show ?thesis
  proof (cases found)
    case None
    with Inr show ?thesis by (simp add: delete_category_def)
  next
    case (Some c)
    show ?thesis
    proof (cases "check_category_has_products env (c_id c) s")
      case (Inl e)
      with Inr Some show ?thesis by (simp add: delete_category_def)
    next
      case has: (Inr has_products)
      show ?thesis
      proof (cases has_products)
        case True
        with Inr Some has show ?thesis by (simp add: delete_category_def)
      next
        case False
        show ?thesis
        proof (cases "purge_category env name s")
          case (Inl e)
          with Inr Some has False show ?thesis
            by (simp add: delete_category_def Let_def)
        next
          case purged: (Inr s')
          with Inr Some has False show ?thesis
            by (simp add: delete_category_def)
        qed
      qed
    qed
  qed
qed

lemma product_create_steps:
  "product_create env today name price category_name s =
     (case read_category env category_name s of
        Inl e \<Rightarrow> (Raised e, s)
      | Inr None \<Rightarrow> (HTTPException HTTP_404_NOT_FOUND ''Category does not exist'', s)
      | Inr (Some c) \<Rightarrow>
          (case insert_product env name price (c_id c) today s of
             Inl e \<Rightarrow> (Raised e, s)
           | Inr (row, s') \<Rightarrow> (Returned (view row (c_name c)), s')))"
proof (cases "read_category env category_name s")
  case (Inl e)
  then show ?thesis by (simp add: product_create_def)
next
  case (Inr found)
  show ?thesis
  proof (cases found)
    case None
    with Inr show ?thesis by (simp add: product_create_def)
  next
    case (Some c)
    with Inr have "c \<in> set (categories s)" by (simp add: read_category_SomeD)
    then have "c_id c \<in> set (map c_id (categories s))" by simp
    with Inr Some show ?thesis
      by (simp add: product_create_def insert_product_def Let_def)
  qed
qed

lemma reachable_delete_category:
  assumes "reachable fk s ts" and "foreign_keys env = fk"
  shows "reachable fk (snd (delete_category env name s)) ts"
  using delete_category_steps [of env name s]
proof
  assume "snd (delete_category env name s) = s"
  with assms(1) show ?thesis by simp
next
  assume "\<exists>c s'. read_category env name s = Inr (Some c) \<and>
      check_category_has_products env (c_id c) s = Inr False \<and>
      purge_category env name s = Inr s' \<and> snd (delete_category env name s) = s'"
  then obtain c s' where r: "read_category env name s = Inr (Some c)"
    and h: "check_category_has_products env (c_id c) s = Inr False"
    and p: "purge_category env name s = Inr s'"
    and d: "snd (delete_category env name s) = s'"
    by blast
  from assms(1) r have 1: "reachable fk s (Probe name c # ts)"
    by (rule reachable.reach_delete_lookup)
  have "reachable fk s (Purge name # remove1 (Probe name c) (Probe name c # ts))"
    by (rule reachable.reach_delete_probe [OF 1 _ h]) simp
  then have 2: "reachable fk s (Purge name # ts)" by simp
  have "reachable fk s' (remove1 (Purge name) (Purge name # ts))"
    by (rule reachable.reach_delete_purge [OF 2 _ assms(2) p]) simp
  with d show ?thesis by simp
qed

lemma reachable_product_create:
  assumes "reachable fk s ts" and "foreign_keys env = fk"
  shows "reachable fk (snd (product_create env today name price category_name s)) ts"
proof (cases "read_category env category_name s")
  case (Inl e)
  with assms(1) show ?thesis by (simp add: product_create_steps)
next
  case (Inr found)
  show ?thesis
  proof (cases found)
    case None
    with Inr assms(1) show ?thesis by (simp add: product_create_steps)
  next
    case (Some c)
    with Inr have r: "read_category env category_name s = Inr (Some c)" by simp
    show ?thesis
    proof (cases "insert_product env name price (c_id c) today s")
      case (Inl e)
      with r assms(1) show ?thesis by (simp add: product_create_steps)
    next
      case inserted: (Inr res)
      obtain row s' where res: "res = (row, s')" by (cases res)
      from assms(1) r have 1: "reachable fk s (Insert name price c # ts)"
        by (rule reachable.reach_create_resolve)
      have i: "insert_product env name price (c_id c) today s = Inr (row, s')"
        using inserted res by simp
      have "reachable fk s' (remove1 (Insert name price c) (Insert name price c # ts))"
        by (rule reachable.reach_create_insert [OF 1 _ assms(2) i]) simp
      with r inserted res show ?thesis by (simp add: product_create_steps)
    qed
  qed
qed

text \<open>What each writing query keeps.\<close>

lemma store_inv_iff: "store_inv s \<longleftrightarrow> ref_integrity s \<and> keys_unique s"
  by (simp add: store_inv_def keys_unique_def)

lemma add_category_ref_integrity:
  assumes "ref_integrity s"
  shows "ref_integrity (snd (add_category env name s))"
proof (cases "write_category env name s")
  case (Inl e)
  with assms show ?thesis by (simp add: add_category_def Let_def)
next
  case (Inr r)
  obtain c s' where r: "r = (c, s')" by (cases r)
  with Inr have "write_category env name s = Inr (c, s')" by simp
  then have "s' = s\<lparr>categories := categories s @ [c]\<rparr>"
    by (simp add: write_category_InrD)
  moreover have "ref_integrity (s\<lparr>categories := categories s @ [c]\<rparr>)"
    using assms by (auto simp: ref_integrity_iff)
  ultimately show ?thesis using Inr r by (simp add: add_category_def)
qed

lemma add_category_keys_unique:
  assumes "keys_unique s"
  shows "keys_unique (snd (add_category env name s))"
proof (cases "write_category env name s")
  case (Inl e)
  with assms show ?thesis by (simp add: add_category_def Let_def)
next
  case (Inr r)
  obtain c s' where r: "r = (c, s')" by (cases r)
  with Inr have "write_category env name s = Inr (c, s')" by simp
  then have d: "name \<notin> set (map c_name (categories s)) \<and>
         c = \<lparr>c_id = next_id (map c_id (categories s)), c_name = name\<rparr> \<and>
         s' = s\<lparr>categories := categories s @ [c]\<rparr>"
    by (rule write_category_InrD)
  have "c_id c \<notin> set (map c_id (categories s))"
    using d next_id_fresh [of "map c_id (categories s)"] by simp
  moreover have "c_name c \<notin> set (map c_name (categories s))"
    using d by simp
  ultimately have "keys_unique (s\<lparr>categories := categories s @ [c]\<rparr>)"
    using assms by (simp add: keys_unique_def)
  with Inr r d show ?thesis by (simp add: add_category_def)
qed

lemma purge_category_keys_unique:
  assumes "keys_unique s" and "purge_category env name s = Inr s'"
  shows "keys_unique s'"
proof -
  from assms(2) have "s' = s\<lparr>categories := filter (\<lambda>c. c_name c \<noteq> name) (categories s)\<rparr>"
    by (rule purge_category_InrD)
  with assms(1) show ?thesis by (simp add: keys_unique_def distinct_map_filter)
qed

text \<open>
  Where the store enforces the foreign key, a purge that goes through has deleted no
  category that a product references.
\<close>

lemma purge_category_enforced:
  assumes "foreign_keys env" and "purge_category env name s = Inr s'"
    and "c \<in> set (categories s)" and "p \<in> set (products s)"
    and "p_category_id p = c_id c"
  shows "c_name c \<noteq> name"
proof
  assume "c_name c = name"
  with assms(3) have "c_id c \<in> set (map c_id (filter (\<lambda>c. c_name c = name) (categories s)))"
    by auto
  with assms(4,5) have "list_ex (\<lambda>p. p_category_id p \<in>
      set (map c_id (filter (\<lambda>c. c_name c = name) (categories s)))) (products s)"
    unfolding list_ex_iff by metis
  with assms(1) have "purge_category env name s \<noteq> Inr s'"
    by (simp add: purge_category_def Let_def split: option.splits)
  with assms(2) show False by simp
qed

lemma purge_category_keeps_referenced:
  assumes "foreign_keys env" and "purge_category env name s = Inr s'"
    and "c \<in> set (categories s)" and "p \<in> set (products s)"
    and "p_category_id p = c_id c"
  shows "c \<in> set (categories s')"
proof -
  have "c_name c \<noteq> name" using assms by (rule purge_category_enforced)
  moreover from assms(2)
  have "s' = s\<lparr>categories := filter (\<lambda>c. c_name c \<noteq> name) (categories s)\<rparr>"
    by (rule purge_category_InrD)
  ultimately show ?thesis using assms(3) by simp
qed

lemma purge_category_ref_integrity:
  assumes "foreign_keys env" and "ref_integrity s" and "purge_category env name s = Inr s'"
  shows "ref_integrity s'"
proof -
  from assms(3)
  have s': "s' = s\<lparr>categories := filter (\<lambda>c. c_name c \<noteq> name) (categories s)\<rparr>"
    by (rule purge_category_InrD)
  have "\<exists>k \<in> set (categories s'). c_id k = p_category_id p" if p: "p \<in> set (products s)" for p
  proof -
    from assms(2) p obtain k where k: "k \<in> set (categories s)"
      and ki: "c_id k = p_category_id p"
      by (auto simp: ref_integrity_iff)
    have "k \<in> set (categories s')"
      using assms(1,3) k p ki [symmetric] by (rule purge_category_keeps_referenced)
    with ki show ?thesis by blast
  qed
  with s' show ?thesis by (simp add: ref_integrity_iff)
qed

lemma insert_product_InrD:
  assumes "insert_product env name price category_id today s = Inr (row, s')"
  shows "p_category_id row = category_id \<and> p_id row = next_id (map p_id (products s)) \<and>
         s' = s\<lparr>products := products s @ [row]\<rparr> \<and>
         (foreign_keys env \<longrightarrow> category_id \<in> set (map c_id (categories s)))"
  using assms by (auto simp: insert_product_def Let_def split: if_splits)

lemma insert_product_ref_integrity:
  assumes "foreign_keys env" and "ref_integrity s"
    and "insert_product env name price category_id today s = Inr (row, s')"
  shows "ref_integrity s'"
proof -
  from assms(3) have d: "p_category_id row = category_id \<and>
         p_id row = next_id (map p_id (products s)) \<and>
         s' = s\<lparr>products := products s @ [row]\<rparr> \<and>
         (foreign_keys env \<longrightarrow> category_id \<in> set (map c_id (categories s)))"
    by (rule insert_product_InrD)
  with assms(1) have "p_category_id row \<in> set (map c_id (categories s))" by simp
  with assms(2) d show ?thesis by (simp add: ref_integrity_def)
qed

lemma insert_product_keys_unique:
  assumes "keys_unique s"
    and "insert_product env name price category_id today s = Inr (row, s')"
  shows "keys_unique s'"
proof -
  from assms(2) have d: "p_category_id row = category_id \<and>
         p_id row = next_id (map p_id (products s)) \<and>
         s' = s\<lparr>products := products s @ [row]\<rparr> \<and>
         (foreign_keys env \<longrightarrow> category_id \<in> set (map c_id (categories s)))"
    by (rule insert_product_InrD)
  have "next_id (map p_id (products s)) \<notin> set (map p_id (products s))"
    by (rule next_id_fresh)
  with assms(1) d show ?thesis by (simp add: keys_unique_def)
qed

lemma product_delete_ref_integrity:
  "ref_integrity s \<Longrightarrow> ref_integrity (snd (product_delete product_id s))"
  by (auto simp: product_delete_def ref_integrity_iff)

lemma product_delete_keys_unique:
  "keys_unique s \<Longrightarrow> keys_unique (snd (product_delete product_id s))"
  by (auto simp: product_delete_def keys_unique_def distinct_map_filter)

text \<open>
  Names and identifiers stay unique in every reachable store. Referential integrity
  holds in every store reachable while the foreign key is enforced, under every
  interleaving.
\<close>

lemma reachable_keys_unique: "reachable fk s ts \<Longrightarrow> keys_unique s"
proof (induction rule: reachable.induct)
  case reach_empty
  show ?case by (simp add: keys_unique_def empty_store_def)
next
  case (reach_add_category s ts env name)
  then show ?case by (simp add: add_category_keys_unique)
next
  case (reach_delete_purge s ts name env s')
  then show ?case by (blast intro: purge_category_keys_unique)
next
  case (reach_create_insert s ts name price c env today row s')
  then show ?case by (blast intro: insert_product_keys_unique)
next
  case (reach_product_delete s ts product_id)
  then show ?case by (simp add: product_delete_keys_unique)
qed simp_all

lemma reachable_ref_integrity: "reachable True s ts \<Longrightarrow> ref_integrity s"
proof (induction rule: reachable.induct)
  case reach_empty
  show ?case by (simp add: ref_integrity_def empty_store_def)
next
  case (reach_add_category s ts env name)
  then show ?case by (simp add: add_category_ref_integrity)
next
  case (reach_delete_purge s ts name env s')
  then show ?case by (blast intro: purge_category_ref_integrity)
next
  case (reach_create_insert s ts name price c env today row s')
  then show ?case by (blast intro: insert_product_ref_integrity)
next
  case (reach_product_delete s ts product_id)
  then show ?case by (simp add: product_delete_ref_integrity)
qed simp_all

lemma map_insort_key: "map f (insort_key f x xs) = insort (f x) (map f xs)"
  by (induction xs) simp_all

lemma map_sort_key: "map f (sort_key f xs) = sort (map f xs)"
  by (induction xs) (simp_all add: map_insort_key)

lemma sorted_map_uminus: "sorted (map uminus ys) \<longleftrightarrow> sorted (rev ys)" for ys :: "rat list"
  by (induction ys) (auto simp: sorted_append)

lemma prices_descending:
  "map v_price (sort_key (\<lambda>v. - v_price v) rows) =
     map uminus (sort (map uminus (map v_price rows)))"
proof -
  have "map uminus (map v_price (sort_key (\<lambda>v. - v_price v) rows)) =
      sort (map uminus (map v_price rows))"
    using map_sort_key [of "\<lambda>v. - v_price v" rows] by (simp add: comp_def)
  then have "map uminus (map uminus (map v_price (sort_key (\<lambda>v. - v_price v) rows))) =
      map uminus (sort (map uminus (map v_price rows)))"
    by simp
  then show ?thesis by (simp add: comp_def)
qed

lemma sorted_prices_descending:
  "sorted (rev (map v_price (sort_key (\<lambda>v. - v_price v) rows)))"
proof -
  have "sorted (map (\<lambda>v. - v_price v) (sort_key (\<lambda>v. - v_price v) rows))"
    by (rule sorted_sort_key)
  then have "sorted (map uminus (map v_price (sort_key (\<lambda>v. - v_price v) rows)))"
    by (simp add: comp_def)
  then show ?thesis by (simp only: sorted_map_uminus)
qed

section \<open>The claims\<close>

text \<open>
  C5. Provided the probe itself does not fail, \<open>check_category_has_products\<close> returns
  true exactly when at least one product row has the given \<open>category_id\<close>; the query
  it runs is limited to one row, so the answer is read from the presence of a row, not
  from a count.
\<close>

theorem check_category_has_products_iff:
  assumes "fault env Q_check_category_has_products = None"
  shows "check_category_has_products env category_id s =
           Inr (\<exists>p \<in> set (products s). p_category_id p = category_id) \<and>
         length (has_products_query category_id s) \<le> 1"
  using assms has_products_probe [of category_id s] has_products_query_length [of category_id s]
  by (simp add: check_category_has_products_def)

theorem check_category_has_products_iff_witness:
  "fault env_sqlite Q_check_category_has_products = None \<and>
   check_category_has_products env_sqlite 1 shop = Inr True \<and>
   check_category_has_products env_sqlite 2 shop = Inr False"
  using check_category_has_products_iff [of env_sqlite 1 shop]
    check_category_has_products_iff [of env_sqlite 2 shop]
  by (simp add: sample_defs)

text \<open>
  C2. With the look-up and the probe answering, and category names unique as the store
  keeps them, \<open>delete_category\<close> decides in this order: no category of that name gives
  the 400 response \<^verbatim>\<open>Category does not exist\<close> (the spec's NotFound); a category
  that some product references gives the 400 response \<^verbatim>\<open>There are still products in
  the category\<close> (HasDependents), whatever the purge would have done, so the delete is not
  attempted; otherwise the row is deleted and the handler returns status 200. In the two
  failing cases the store is returned as it was.
\<close>

theorem delete_category_decision_order:
  assumes "fault env Q_read_category = None"
    and "fault env Q_check_category_has_products = None"
    and "distinct (map c_name (categories s))"
  shows
    "(name \<notin> set (map c_name (categories s)) \<longrightarrow>
        delete_category env name s =
          (HTTPException HTTP_400_BAD_REQUEST ''Category does not exist'', s)) \<and>
     (\<forall>c \<in> set (categories s).
        c_name c = name \<and> (\<exists>p \<in> set (products s). p_category_id p = c_id c) \<longrightarrow>
        delete_category env name s =
          (HTTPException HTTP_400_BAD_REQUEST ''There are still products in the category'', s)) \<and>
     (\<forall>c \<in> set (categories s).
        c_name c = name \<and> \<not> (\<exists>p \<in> set (products s). p_category_id p = c_id c) \<and>
        fault env Q_purge_category = None \<longrightarrow>
        delete_category env name s =
          (Returned (Response HTTP_200_OK),
           s\<lparr>categories := filter (\<lambda>c. c_name c \<noteq> name) (categories s)\<rparr>))"
proof (intro conjI impI ballI)
  assume "name \<notin> set (map c_name (categories s))"
  with assms(1) have "read_category env name s = Inr None"
    by (rule read_category_None)
  then show "delete_category env name s =
      (HTTPException HTTP_400_BAD_REQUEST ''Category does not exist'', s)"
    by (simp add: delete_category_def)
next
  fix c
  assume c: "c \<in> set (categories s)"
    and "c_name c = name \<and> (\<exists>p \<in> set (products s). p_category_id p = c_id c)"
  then have n: "c_name c = name" and p: "\<exists>p \<in> set (products s). p_category_id p = c_id c"
    by simp_all
  have "read_category env name s = Inr (Some c)"
    using assms(1,3) c n by (rule read_category_Some)
  moreover have "check_category_has_products env (c_id c) s = Inr True"
    using check_category_has_products_value [OF assms(2), of "c_id c" s] p by simp
  ultimately show "delete_category env name s =
      (HTTPException HTTP_400_BAD_REQUEST ''There are still products in the category'', s)"
    by (simp add: delete_category_def)
next
  fix c
  assume c: "c \<in> set (categories s)"
    and "c_name c = name \<and> \<not> (\<exists>p \<in> set (products s). p_category_id p = c_id c) \<and>
         fault env Q_purge_category = None"
  then have n: "c_name c = name" and p: "\<not> (\<exists>p \<in> set (products s). p_category_id p = c_id c)"
    and f: "fault env Q_purge_category = None"
    by simp_all
  have "read_category env name s = Inr (Some c)"
    using assms(1,3) c n by (rule read_category_Some)
  moreover have "check_category_has_products env (c_id c) s = Inr False"
    using check_category_has_products_value [OF assms(2), of "c_id c" s] p by simp
  moreover have "purge_category env name s =
      Inr (s\<lparr>categories := filter (\<lambda>c. c_name c \<noteq> name) (categories s)\<rparr>)"
    using f assms(3) c n p by (rule purge_category_unreferenced)
  ultimately show "delete_category env name s =
      (Returned (Response HTTP_200_OK),
       s\<lparr>categories := filter (\<lambda>c. c_name c \<noteq> name) (categories s)\<rparr>)"
    by (simp add: delete_category_def)
qed

theorem delete_category_decision_order_witness:
  "fault env_postgres Q_read_category = None \<and>
   fault env_postgres Q_check_category_has_products = None \<and>
   fault env_postgres Q_purge_category = None \<and>
   distinct (map c_name (categories shop)) \<and>
   ''Food'' \<notin> set (map c_name (categories shop)) \<and>
   books \<in> set (categories shop) \<and> tech \<in> set (categories shop) \<and>
   delete_category env_postgres ''Food'' shop =
     (HTTPException 400 ''Category does not exist'', shop) \<and>
   delete_category env_postgres ''Books'' shop =
     (HTTPException 400 ''There are still products in the category'', shop) \<and>
   delete_category env_postgres ''Tech'' shop =
     (Returned (Response 200), \<lparr>categories = [books], products = [novel]\<rparr>)"
  using delete_category_decision_order [of env_postgres shop "''Food''"]
    delete_category_decision_order [of env_postgres shop "''Books''"]
    delete_category_decision_order [of env_postgres shop "''Tech''"]
  by (simp add: sample_defs status_defs)

text \<open>
  C3. When the insert itself does not fail for another reason, creating a category whose
  name is already in the table fails: \<open>write_category\<close> makes no check of its own and
  the store's uniqueness constraint raises, which \<open>add_category\<close> turns into the 400
  response \<^verbatim>\<open>Category already exists\<close> (the spec's DuplicateName). The store is returned
  unchanged, and with names unique before the call exactly one row has that name after it.
\<close>

theorem add_category_duplicate:
  assumes "fault env Q_write_category = None"
    and "name \<in> set (map c_name (categories s))"
    and "distinct (map c_name (categories s))"
  shows "write_category env name s = Inl (unique_violation (backend env)) \<and>
         add_category env name s =
           (HTTPException HTTP_400_BAD_REQUEST ''Category already exists'', s) \<and>
         length (filter (\<lambda>c. c_name c = name)
                   (categories (snd (add_category env name s)))) = 1"
proof -
  have w: "write_category env name s = Inl (unique_violation (backend env))"
    using assms(1,2) by (rule write_category_duplicate)
  then have a: "add_category env name s =
      (HTTPException HTTP_400_BAD_REQUEST ''Category already exists'', s)"
    by (rule add_category_of_violation)
  from assms(2) obtain c where c: "c \<in> set (categories s)" and n: "c_name c = name"
    by auto
  have "filter (\<lambda>y. c_name y = c_name c) (categories s) = [c]"
    using assms(3) c by (rule distinct_map_filter_single)
  with n have "length (filter (\<lambda>c. c_name c = name) (categories s)) = 1"
    by simp
  with w a show ?thesis by simp
qed

theorem add_category_duplicate_witness:
  "fault env_sqlite Q_write_category = None \<and>
   snd (add_category env_sqlite ''Groceries'' empty_store) =
     \<lparr>categories = [\<lparr>c_id = 1, c_name = ''Groceries''\<rparr>], products = []\<rparr> \<and>
   ''Groceries'' \<in> set (map c_name [\<lparr>c_id = 1, c_name = ''Groceries''\<rparr>]) \<and>
   distinct (map c_name [\<lparr>c_id = 1, c_name = ''Groceries''\<rparr>]) \<and>
   add_category env_sqlite ''Groceries''
       \<lparr>categories = [\<lparr>c_id = 1, c_name = ''Groceries''\<rparr>], products = []\<rparr> =
     (HTTPException 400 ''Category already exists'',
      \<lparr>categories = [\<lparr>c_id = 1, c_name = ''Groceries''\<rparr>], products = []\<rparr>)"
  using add_category_duplicate [of env_sqlite "''Groceries''"
      "\<lparr>categories = [\<lparr>c_id = 1, c_name = ''Groceries''\<rparr>], products = []\<rparr>"]
  by (simp add: sample_defs status_defs model_defs)

text \<open>
  C8. When neither the insert nor the listing fails for another reason, creating a
  category under a name that is not in the table returns a new identifier and that same
  name; a listing made afterwards returns the earlier rows followed by the new one, the
  new row is the only row of that name, and on an empty table the listing is exactly
  the new category.
\<close>

theorem add_category_then_list:
  assumes "fault env Q_write_category = None"
    and "fault env Q_read_categories = None"
    and "name \<notin> set (map c_name (categories s))"
  shows
    "(let created = \<lparr>c_id = next_id (map c_id (categories s)), c_name = name\<rparr>;
          s' = snd (add_category env name s)
      in fst (add_category env name s) = Returned created \<and>
         c_id created \<notin> set (map c_id (categories s)) \<and>
         get_categories env s' = (Returned (categories s @ [created]), s') \<and>
         filter (\<lambda>c. c_name c = name) (categories s') = [created] \<and>
         (categories s = [] \<longrightarrow> get_categories env s' = (Returned [created], s')))"
proof -
  define created where "created = \<lparr>c_id = next_id (map c_id (categories s)), c_name = name\<rparr>"
  have a: "add_category env name s =
      (Returned created, s\<lparr>categories := categories s @ [created]\<rparr>)"
    using write_category_fresh [OF assms(1,3)]
    by (simp add: add_category_def created_def)
  have f: "filter (\<lambda>c. c_name c = name) (categories s) = []"
    using assms(3) by (auto simp: filter_empty_conv)
  have i: "c_id created \<notin> set (map c_id (categories s))"
    using next_id_fresh [of "map c_id (categories s)"] by (simp add: created_def)
  have n: "c_name created = name" by (simp add: created_def)
  show ?thesis
    unfolding Let_def created_def [symmetric]
    using a f i n assms(2) by (simp add: get_categories_def read_categories_def)
qed

theorem add_category_then_list_witness:
  "fault env_sqlite Q_write_category = None \<and>
   fault env_sqlite Q_read_categories = None \<and>
   ''Electronics'' \<notin> set (map c_name (categories empty_store)) \<and>
   add_category env_sqlite ''Electronics'' empty_store =
     (Returned \<lparr>c_id = 1, c_name = ''Electronics''\<rparr>,
      \<lparr>categories = [\<lparr>c_id = 1, c_name = ''Electronics''\<rparr>], products = []\<rparr>) \<and>
   fst (get_categories env_sqlite (snd (add_category env_sqlite ''Electronics'' empty_store))) =
     Returned [\<lparr>c_id = 1, c_name = ''Electronics''\<rparr>]"
  using add_category_then_list [of env_sqlite "''Electronics''" empty_store]
  by (simp add: sample_defs model_defs)

text \<open>
  C9. Category creation looks at nothing in the name but whether the table has it: for
  every string that is not yet a category name, the empty string included, and with no
  other failure of the insert, \<open>write_category\<close> appends the row with the name as given
  and \<open>add_category\<close> returns its identifier and name.
\<close>

theorem write_category_any_name:
  assumes "fault env Q_write_category = None"
    and "name \<notin> set (map c_name (categories s))"
  shows
    "write_category env name s =
       Inr (\<lparr>c_id = next_id (map c_id (categories s)), c_name = name\<rparr>,
            s\<lparr>categories := categories s @
               [\<lparr>c_id = next_id (map c_id (categories s)), c_name = name\<rparr>]\<rparr>) \<and>
     add_category env name s =
       (Returned \<lparr>c_id = next_id (map c_id (categories s)), c_name = name\<rparr>,
        s\<lparr>categories := categories s @
           [\<lparr>c_id = next_id (map c_id (categories s)), c_name = name\<rparr>]\<rparr>) \<and>
     ([] \<notin> set (map c_name (categories s)) \<longrightarrow>
        fst (add_category env [] s) =
          Returned \<lparr>c_id = next_id (map c_id (categories s)), c_name = []\<rparr>)"
proof (intro conjI impI)
  show "write_category env name s =
       Inr (\<lparr>c_id = next_id (map c_id (categories s)), c_name = name\<rparr>,
            s\<lparr>categories := categories s @
               [\<lparr>c_id = next_id (map c_id (categories s)), c_name = name\<rparr>]\<rparr>)"
    using assms by (rule write_category_fresh)
  then show "add_category env name s =
       (Returned \<lparr>c_id = next_id (map c_id (categories s)), c_name = name\<rparr>,
        s\<lparr>categories := categories s @
           [\<lparr>c_id = next_id (map c_id (categories s)), c_name = name\<rparr>]\<rparr>)"
    by (simp add: add_category_def)
next
  assume "[] \<notin> set (map c_name (categories s))"
  with assms(1) show "fst (add_category env [] s) =
      Returned \<lparr>c_id = next_id (map c_id (categories s)), c_name = []\<rparr>"
    using write_category_fresh [of env "[]" s] by (simp add: add_category_def)
qed

theorem write_category_any_name_witness:
  "fault env_postgres Q_write_category = None \<and>
   [] \<notin> set (map c_name (categories shop)) \<and>
   add_category env_postgres [] shop =
     (Returned \<lparr>c_id = 3, c_name = []\<rparr>,
      \<lparr>categories = [books, tech, \<lparr>c_id = 3, c_name = []\<rparr>], products = [novel]\<rparr>)"
  using write_category_any_name [of env_postgres "[]" shop]
  by (simp add: sample_defs model_defs)

text \<open>
  C10. A call of \<open>delete_category\<close> that does not return, whether it ends in one of the
  400 responses (no category of that name, or products still in the category) or in an
  exception let through, leaves the store exactly as it was: no row of either table is
  deleted or changed.
\<close>

theorem delete_category_failure_keeps_store:
  "(fst (delete_category env name s) = HTTPException code detail \<longrightarrow>
      snd (delete_category env name s) = s) \<and>
   (fst (delete_category env name s) = Raised e \<longrightarrow>
      snd (delete_category env name s) = s)"
  by (auto simp: delete_category_def Let_def split: sum.splits option.splits if_splits)

theorem delete_category_failure_keeps_store_witness:
  "fst (delete_category env_sqlite ''Food'' shop) =
     HTTPException 400 ''Category does not exist'' \<and>
   snd (delete_category env_sqlite ''Food'' shop) = shop \<and>
   fst (delete_category env_sqlite ''Books'' shop) =
     HTTPException 400 ''There are still products in the category'' \<and>
   snd (delete_category env_sqlite ''Books'' shop) = shop \<and>
   fst (delete_category
          (env_sqlite\<lparr>fault := no_fault(Q_purge_category \<mapsto> Exn OtherException ''connection lost'')\<rparr>)
          ''Tech'' shop) = Raised (Exn OtherException ''connection lost'') \<and>
   snd (delete_category
          (env_sqlite\<lparr>fault := no_fault(Q_purge_category \<mapsto> Exn OtherException ''connection lost'')\<rparr>)
          ''Tech'' shop) = shop"
  using delete_category_failure_keeps_store
      [of env_sqlite "''Food''" shop 400 "''Category does not exist''"]
    delete_category_failure_keeps_store
      [of env_sqlite "''Books''" shop 400 "''There are still products in the category''"]
    delete_category_failure_keeps_store
      [of "env_sqlite\<lparr>fault := no_fault(Q_purge_category \<mapsto> Exn OtherException ''connection lost'')\<rparr>"
          "''Tech''" shop _ _ "Exn OtherException ''connection lost''"]
  by (simp add: sample_defs status_defs model_defs)

text \<open>
  C6. A store error whose text is not recognised is let through by both handlers and is
  never turned into a domain error. In \<open>add_category\<close>: an error of the insert whose
  lowered text holds neither \<^verbatim>\<open>unique\<close> nor \<^verbatim>\<open>constraint\<close> is raised again, and
  the handler ends in an \<^verbatim>\<open>HTTPException\<close> only when the insert raised an error whose
  text holds one of the two words. In \<open>delete_category\<close>: an error of the look-up or of
  the probe is always let through; an error of the purge whose lowered text holds
  neither \<^verbatim>\<open>foreign\<close> nor \<^verbatim>\<open>constraint\<close> is raised again, and after an error of the
  purge the handler ends in an \<^verbatim>\<open>HTTPException\<close> only when the text holds one of the
  two words. The store is returned unchanged in each case.
\<close>

theorem unrecognised_store_errors_propagate:
  "(write_category env name s = Inl e \<and>
      \<not> str_in ''unique'' (lower (str e)) \<and> \<not> str_in ''constraint'' (lower (str e)) \<longrightarrow>
      add_category env name s = (Raised e, s)) \<and>
   (fst (add_category env name s) = HTTPException code detail \<longrightarrow>
      (\<exists>e'. write_category env name s = Inl e' \<and>
         (str_in ''unique'' (lower (str e')) \<or> str_in ''constraint'' (lower (str e'))))) \<and>
   (read_category env name s = Inl e \<longrightarrow> delete_category env name s = (Raised e, s)) \<and>
   (read_category env name s = Inr (Some c) \<and>
      check_category_has_products env (c_id c) s = Inl e \<longrightarrow>
      delete_category env name s = (Raised e, s)) \<and>
   (read_category env name s = Inr (Some c) \<and>
      check_category_has_products env (c_id c) s = Inr False \<and>
      purge_category env name s = Inl e \<longrightarrow>
      (\<not> str_in ''foreign'' (lower (str e)) \<and> \<not> str_in ''constraint'' (lower (str e)) \<longrightarrow>
         delete_category env name s = (Raised e, s)) \<and>
      (fst (delete_category env name s) = HTTPException code detail \<longrightarrow>
         str_in ''foreign'' (lower (str e)) \<or> str_in ''constraint'' (lower (str e))))"
proof (intro conjI impI)
  assume "write_category env name s = Inl e \<and>
      \<not> str_in ''unique'' (lower (str e)) \<and> \<not> str_in ''constraint'' (lower (str e))"
  then show "add_category env name s = (Raised e, s)"
    by (simp add: add_category_def Let_def)
next
  assume "fst (add_category env name s) = HTTPException code detail"
  then show "\<exists>e'. write_category env name s = Inl e' \<and>
         (str_in ''unique'' (lower (str e')) \<or> str_in ''constraint'' (lower (str e')))"
    by (cases "write_category env name s")
      (auto simp: add_category_def Let_def split: if_splits)
next
  assume "read_category env name s = Inl e"
  then show "delete_category env name s = (Raised e, s)"
    by (simp add: delete_category_def)
next
  assume "read_category env name s = Inr (Some c) \<and>
      check_category_has_products env (c_id c) s = Inl e"
  then show "delete_category env name s = (Raised e, s)"
    by (simp add: delete_category_def)
next
  assume a: "read_category env name s = Inr (Some c) \<and>
      check_category_has_products env (c_id c) s = Inr False \<and>
      purge_category env name s = Inl e"
  {
    assume "\<not> str_in ''foreign'' (lower (str e)) \<and> \<not> str_in ''constraint'' (lower (str e))"
    with a show "delete_category env name s = (Raised e, s)"
      by (simp add: delete_category_def Let_def)
  }
  {
    assume "fst (delete_category env name s) = HTTPException code detail"
    with a show "str_in ''foreign'' (lower (str e)) \<or> str_in ''constraint'' (lower (str e))"
      by (auto simp: delete_category_def Let_def split: if_splits)
  }
qed

theorem unrecognised_store_errors_propagate_witness:
  "(write_category (failing Q_write_category locked) ''Food'' shop = Inl locked \<and>
    \<not> str_in ''unique'' (lower (str locked)) \<and> \<not> str_in ''constraint'' (lower (str locked)) \<and>
    add_category (failing Q_write_category locked) ''Food'' shop = (Raised locked, shop)) \<and>
   (fst (add_category env_sqlite ''Books'' shop) =
      HTTPException 400 ''Category already exists'' \<and>
    write_category env_sqlite ''Books'' shop =
      Inl (Exn IntegrityError ''UNIQUE constraint failed: categories.name'')) \<and>
   (read_category (failing Q_read_category lost) ''Tech'' shop = Inl lost \<and>
    delete_category (failing Q_read_category lost) ''Tech'' shop = (Raised lost, shop)) \<and>
   (read_category (failing Q_check_category_has_products lost) ''Tech'' shop =
      Inr (Some tech) \<and>
    check_category_has_products (failing Q_check_category_has_products lost) (c_id tech) shop =
      Inl lost \<and>
    delete_category (failing Q_check_category_has_products lost) ''Tech'' shop =
      (Raised lost, shop)) \<and>
   (read_category (failing Q_purge_category lost) ''Tech'' shop = Inr (Some tech) \<and>
    check_category_has_products (failing Q_purge_category lost) (c_id tech) shop = Inr False \<and>
    purge_category (failing Q_purge_category lost) ''Tech'' shop = Inl lost \<and>
    \<not> str_in ''foreign'' (lower (str lost)) \<and> \<not> str_in ''constraint'' (lower (str lost)) \<and>
    delete_category (failing Q_purge_category lost) ''Tech'' shop = (Raised lost, shop)) \<and>
   (purge_category (failing Q_purge_category (foreign_key_violation SQLite)) ''Tech'' shop =
      Inl (foreign_key_violation SQLite) \<and>
    fst (delete_category (failing Q_purge_category (foreign_key_violation SQLite))
           ''Tech'' shop) =
      HTTPException 400 ''There are still products in the category'' \<and>
    (str_in ''foreign'' (lower (str (foreign_key_violation SQLite))) \<or>
     str_in ''constraint'' (lower (str (foreign_key_violation SQLite)))))"
proof (intro conjI)
  have w: "write_category (failing Q_write_category locked) ''Food'' shop = Inl locked"
    by (simp add: write_category_def failing_def)
  have nu: "\<not> str_in ''unique'' (lower (str locked))"
    by (simp add: locked_def lower_def lower_char_def)
  have nc: "\<not> str_in ''constraint'' (lower (str locked))"
    by (simp add: locked_def lower_def lower_char_def)
  show "write_category (failing Q_write_category locked) ''Food'' shop = Inl locked"
    by (rule w)
  show "\<not> str_in ''unique'' (lower (str locked))" by (rule nu)
  show "\<not> str_in ''constraint'' (lower (str locked))" by (rule nc)
  show "add_category (failing Q_write_category locked) ''Food'' shop = (Raised locked, shop)"
    using unrecognised_store_errors_propagate
      [of "failing Q_write_category locked" "''Food''" shop locked] w nu nc
    by blast
next
  show d: "fst (add_category env_sqlite ''Books'' shop) =
      HTTPException 400 ''Category already exists''"
    by (simp add: add_category_def write_category_def unique_violation_def lower_def
        lower_char_def sample_defs status_defs)
  show "write_category env_sqlite ''Books'' shop =
      Inl (Exn IntegrityError ''UNIQUE constraint failed: categories.name'')"
    by (simp add: write_category_def unique_violation_def sample_defs)
next
  show r: "read_category (failing Q_read_category lost) ''Tech'' shop = Inl lost"
    by (simp add: read_category_def failing_def)
  show "delete_category (failing Q_read_category lost) ''Tech'' shop = (Raised lost, shop)"
    using unrecognised_store_errors_propagate
      [of "failing Q_read_category lost" "''Tech''" shop lost] r
    by blast
next
  show r: "read_category (failing Q_check_category_has_products lost) ''Tech'' shop =
      Inr (Some tech)"
    by (simp add: read_category_def fetch_one_def sample_defs)
  show c: "check_category_has_products (failing Q_check_category_has_products lost)
      (c_id tech) shop = Inl lost"
    by (simp add: check_category_has_products_def failing_def)
  show "delete_category (failing Q_check_category_has_products lost) ''Tech'' shop =
      (Raised lost, shop)"
    using unrecognised_store_errors_propagate
      [of "failing Q_check_category_has_products lost" "''Tech''" shop lost _ _ tech] r c
    by blast
next
  show r: "read_category (failing Q_purge_category lost) ''Tech'' shop = Inr (Some tech)"
    by (simp add: read_category_def fetch_one_def sample_defs)
  show c: "check_category_has_products (failing Q_purge_category lost) (c_id tech) shop =
      Inr False"
    by (simp add: check_category_has_products_def has_products_query_def fetch_one_def
        sample_defs)
  show p: "purge_category (failing Q_purge_category lost) ''Tech'' shop = Inl lost"
    by (simp add: purge_category_def failing_def)
  show nf: "\<not> str_in ''foreign'' (lower (str lost))"
    by (simp add: lost_def lower_def lower_char_def)
  show nc: "\<not> str_in ''constraint'' (lower (str lost))"
    by (simp add: lost_def lower_def lower_char_def)
  show "delete_category (failing Q_purge_category lost) ''Tech'' shop = (Raised lost, shop)"
    using unrecognised_store_errors_propagate
      [of "failing Q_purge_category lost" "''Tech''" shop lost _ _ tech] r c p nf nc
    by blast
next
  let ?e = "foreign_key_violation SQLite"
  have r: "read_category (failing Q_purge_category ?e) ''Tech'' shop = Inr (Some tech)"
    by (simp add: read_category_def fetch_one_def sample_defs)
  have c: "check_category_has_products (failing Q_purge_category ?e) (c_id tech) shop =
      Inr False"
    by (simp add: check_category_has_products_def has_products_query_def fetch_one_def
        sample_defs)
  show p: "purge_category (failing Q_purge_category ?e) ''Tech'' shop = Inl ?e"
    by (simp add: purge_category_def failing_def)
  show d: "fst (delete_category (failing Q_purge_category ?e) ''Tech'' shop) =
      HTTPException 400 ''There are still products in the category''"
    by (simp add: sample_defs status_defs model_defs)
  show "str_in ''foreign'' (lower (str ?e)) \<or> str_in ''constraint'' (lower (str ?e))"
    using unrecognised_store_errors_propagate
      [of "failing Q_purge_category ?e" "''Tech''" shop ?e 400
          "''There are still products in the category''" tech] r c p d
    by blast
qed

text \<open>
  C1, as stated, fails where the store does not enforce the foreign key: the look-up,
  the probe and the purge of \<open>delete_category\<close> are three queries with no transaction
  around them. After the probe of a request to delete \<^verbatim>\<open>Appliances\<close> has found no
  product, another request creates a product in that category; the purge then deletes the
  category, which by now has a referencing product, and the reachable store that results
  has a product whose \<open>category_id\<close> is the identifier of no category row.
\<close>

theorem referential_integrity_counterexample:
  "reachable False stocked [Purge ''Appliances''] \<and>
   appliances \<in> set (categories stocked) \<and> blender \<in> set (products stocked) \<and>
   p_category_id blender = c_id appliances \<and>
   purge_category env_sqlite ''Appliances'' stocked = Inr orphaned \<and>
   reachable False orphaned [] \<and>
   appliances \<notin> set (categories orphaned) \<and> \<not> ref_integrity orphaned"
proof -
  have "reachable False (snd (add_category env_sqlite ''Appliances'' empty_store)) []"
    by (intro reachable.reach_add_category reachable.reach_empty)
  moreover have "snd (add_category env_sqlite ''Appliances'' empty_store) = kitchen"
    by (simp add: sample_defs model_defs)
  ultimately have 1: "reachable False kitchen []" by simp
  have "read_category env_sqlite ''Appliances'' kitchen = Inr (Some appliances)"
    by (simp add: sample_defs model_defs)
  with 1 have 2: "reachable False kitchen [Probe ''Appliances'' appliances]"
    by (rule reachable.reach_delete_lookup)
  have h: "check_category_has_products env_sqlite (c_id appliances) kitchen = Inr False"
    by (simp add: sample_defs model_defs)
  have "reachable False kitchen
      (Purge ''Appliances'' #
       remove1 (Probe ''Appliances'' appliances) [Probe ''Appliances'' appliances])"
    by (rule reachable.reach_delete_probe [OF 2 _ h]) simp
  then have 3: "reachable False kitchen [Purge ''Appliances'']" by simp
  have "read_category env_sqlite ''Appliances'' kitchen = Inr (Some appliances)"
    by (simp add: sample_defs model_defs)
  with 3 have 4: "reachable False kitchen
      [Insert ''Blender'' 99 appliances, Purge ''Appliances'']"
    by (rule reachable.reach_create_resolve)
  have i: "insert_product env_sqlite ''Blender'' 99 (c_id appliances) 739000 kitchen =
      Inr (blender, stocked)"
    by (simp add: sample_defs model_defs)
  have f: "foreign_keys env_sqlite = False"
    by (simp add: sample_defs)
  have "reachable False stocked
      (remove1 (Insert ''Blender'' 99 appliances)
         [Insert ''Blender'' 99 appliances, Purge ''Appliances''])"
    by (rule reachable.reach_create_insert [OF 4 _ f i]) simp
  then have 5: "reachable False stocked [Purge ''Appliances'']" by simp
  have p: "purge_category env_sqlite ''Appliances'' stocked = Inr orphaned"
    by (simp add: sample_defs model_defs)
  have "reachable False orphaned (remove1 (Purge ''Appliances'') [Purge ''Appliances''])"
    by (rule reachable.reach_delete_purge [OF 5 _ f p]) simp
  then have 6: "reachable False orphaned []" by simp
  have "appliances \<in> set (categories stocked) \<and> blender \<in> set (products stocked) \<and>
      p_category_id blender = c_id appliances"
    by (simp add: sample_defs)
  moreover have "appliances \<notin> set (categories orphaned) \<and> \<not> ref_integrity orphaned"
    by (simp add: ref_integrity_def sample_defs)
  ultimately show ?thesis using 5 p 6 by simp
qed

text \<open>
  C1, amended. Where the store enforces the foreign key, every product's \<open>category_id\<close>
  is the identifier of a category row in every reachable store, under every interleaving
  of the requests' queries, names and identifiers are unique there, and a purge that goes
  through deletes no category that a product references. The probe of
  \<open>delete_category\<close> preserves the invariant by itself only for a call whose look-up,
  probe and purge run with no other request in between: such a call, in every
  environment, takes a store that satisfies the invariant to one that satisfies it and
  keeps every category that a product references.
\<close>

theorem referential_integrity_with_foreign_key:
  "(reachable True s ts \<longrightarrow> ref_integrity s \<and> store_inv s) \<and>
   (foreign_keys env \<and> purge_category env name s = Inr s' \<longrightarrow>
      (\<forall>c \<in> set (categories s).
         (\<exists>p \<in> set (products s). p_category_id p = c_id c) \<longrightarrow> c \<in> set (categories s'))) \<and>
   (store_inv s \<longrightarrow>
      store_inv (snd (delete_category env name s)) \<and>
      (\<forall>c \<in> set (categories s).
         (\<exists>p \<in> set (products s). p_category_id p = c_id c) \<longrightarrow>
         c \<in> set (categories (snd (delete_category env name s)))))"
proof (intro conjI impI)
  assume r: "reachable True s ts"
  then show "ref_integrity s" by (rule reachable_ref_integrity)
  moreover from r have "keys_unique s" by (rule reachable_keys_unique)
  ultimately show "store_inv s" by (simp add: store_inv_iff)
next
  assume "foreign_keys env \<and> purge_category env name s = Inr s'"
  then show "\<forall>c \<in> set (categories s).
      (\<exists>p \<in> set (products s). p_category_id p = c_id c) \<longrightarrow> c \<in> set (categories s')"
    by (blast intro: purge_category_keeps_referenced)
next
  assume "store_inv s"
  then show "store_inv (snd (delete_category env name s))"
    by (rule delete_category_store_inv)
next
  assume "store_inv s"
  then have "distinct (map c_name (categories s))"
    by (simp add: store_inv_def)
  then show "\<forall>c \<in> set (categories s).
      (\<exists>p \<in> set (products s). p_category_id p = c_id c) \<longrightarrow>
      c \<in> set (categories (snd (delete_category env name s)))"
    by (blast intro: delete_category_keeps_referenced)
qed

theorem referential_integrity_with_foreign_key_witness:
  "reachable True shop [] \<and> ref_integrity shop \<and> store_inv shop \<and>
   foreign_keys env_postgres \<and>
   purge_category env_postgres ''Tech'' shop =
     Inr \<lparr>categories = [books], products = [novel]\<rparr> \<and>
   books \<in> set (categories shop) \<and> novel \<in> set (products shop) \<and>
   p_category_id novel = c_id books \<and>
   books \<in> set (categories \<lparr>categories = [books], products = [novel]\<rparr>) \<and>
   store_inv (snd (delete_category env_sqlite ''Books'' shop)) \<and>
   books \<in> set (categories (snd (delete_category env_sqlite ''Books'' shop)))"
proof -
  have "reachable True
      (snd (product_create env_postgres 739000 ''Novel'' 20 ''Books''
         (snd (add_category env_postgres ''Tech''
            (snd (add_category env_postgres ''Books'' empty_store)))))) []"
    by (intro reachable_product_create reachable.reach_add_category reachable.reach_empty)
      (simp add: env_postgres_def)
  moreover have "snd (product_create env_postgres 739000 ''Novel'' 20 ''Books''
         (snd (add_category env_postgres ''Tech''
            (snd (add_category env_postgres ''Books'' empty_store))))) = shop"
    by (simp add: product_create_def sample_defs model_defs)
  ultimately have r: "reachable True shop []" by simp
  have fk: "foreign_keys env_postgres" by (simp add: env_postgres_def)
  have p: "purge_category env_postgres ''Tech'' shop =
      Inr \<lparr>categories = [books], products = [novel]\<rparr>"
    by (simp add: sample_defs model_defs)
  have b: "books \<in> set (categories shop) \<and> novel \<in> set (products shop) \<and>
      p_category_id novel = c_id books"
    by (simp add: sample_defs)
  from referential_integrity_with_foreign_key [of shop "[]"] r
  have inv: "ref_integrity shop \<and> store_inv shop" by blast
  from referential_integrity_with_foreign_key
    [of shop _ env_postgres "''Tech''" "\<lparr>categories = [books], products = [novel]\<rparr>"]
    fk p b
  have k: "books \<in> set (categories \<lparr>categories = [books], products = [novel]\<rparr>)"
    by blast
  from referential_integrity_with_foreign_key [of shop _ env_sqlite "''Books''"] inv b
  have "store_inv (snd (delete_category env_sqlite ''Books'' shop)) \<and>
      books \<in> set (categories (snd (delete_category env_sqlite ''Books'' shop)))"
    by blast
  with r inv fk p b k show ?thesis by simp
qed

text \<open>
  C4. Product creation, as the spec describes it. With the look-up answering and category
  names unique: when no category has the given name the operation ends in the 404
  response \<^verbatim>\<open>Category does not exist\<close> (CategoryNotFound) and the store is unchanged, so
  no product row is created; when a category has the name, one row is appended to the
  products with a new identifier, the given name and price, the \<open>category_id\<close> of that
  category and \<open>created_at\<close> equal to the current date, and the created product is
  returned with that \<open>category_id\<close> and the category's name.
\<close>

theorem product_create_contract:
  assumes "fault env Q_read_category = None"
    and "distinct (map c_name (categories s))"
  shows
    "(category_name \<notin> set (map c_name (categories s)) \<longrightarrow>
        product_create env today name price category_name s =
          (HTTPException HTTP_404_NOT_FOUND ''Category does not exist'', s)) \<and>
     (\<forall>c \<in> set (categories s). c_name c = category_name \<longrightarrow>
        product_create env today name price category_name s =
          (Returned \<lparr>v_id = next_id (map p_id (products s)), v_name = name, v_price = price,
                     v_category_id = c_id c, v_category_name = category_name,
                     v_created_at = today\<rparr>,
           s\<lparr>products := products s @
              [\<lparr>p_id = next_id (map p_id (products s)), p_name = name, p_price = price,
                p_category_id = c_id c, p_created_at = today\<rparr>]\<rparr>))"
proof (intro conjI impI ballI)
  assume "category_name \<notin> set (map c_name (categories s))"
  with assms(1) have "read_category env category_name s = Inr None"
    by (rule read_category_None)
  then show "product_create env today name price category_name s =
      (HTTPException HTTP_404_NOT_FOUND ''Category does not exist'', s)"
    by (simp add: product_create_def)
next
  fix c
  assume c: "c \<in> set (categories s)" and n: "c_name c = category_name"
  have "read_category env category_name s = Inr (Some c)"
    using assms c n by (rule read_category_Some)
  with n show "product_create env today name price category_name s =
      (Returned \<lparr>v_id = next_id (map p_id (products s)), v_name = name, v_price = price,
                 v_category_id = c_id c, v_category_name = category_name,
                 v_created_at = today\<rparr>,
       s\<lparr>products := products s @
          [\<lparr>p_id = next_id (map p_id (products s)), p_name = name, p_price = price,
            p_category_id = c_id c, p_created_at = today\<rparr>]\<rparr>)"
    by (simp add: product_create_def view_def Let_def)
qed

theorem product_create_contract_witness:
  "fault env_sqlite Q_read_category = None \<and>
   distinct (map c_name (categories shop)) \<and>
   ''Missing'' \<notin> set (map c_name (categories shop)) \<and>
   product_create env_sqlite 739001 ''Camera'' 300 ''Missing'' shop =
     (HTTPException 404 ''Category does not exist'', shop) \<and>
   tech \<in> set (categories shop) \<and> c_name tech = ''Tech'' \<and>
   product_create env_sqlite 739001 ''Smartphone'' (99999 / 100) ''Tech'' shop =
     (Returned \<lparr>v_id = 2, v_name = ''Smartphone'', v_price = 99999 / 100, v_category_id = 2,
                v_category_name = ''Tech'', v_created_at = 739001\<rparr>,
      \<lparr>categories = [books, tech],
       products = [novel, \<lparr>p_id = 2, p_name = ''Smartphone'', p_price = 99999 / 100,
                            p_category_id = 2, p_created_at = 739001\<rparr>]\<rparr>)"
  using product_create_contract [of env_sqlite shop "''Missing''" 739001 "''Camera''" 300]
    product_create_contract
      [of env_sqlite shop "''Tech''" 739001 "''Smartphone''" "99999 / 100"]
  by (simp add: sample_defs status_defs next_id_def)

text \<open>
  C7. The product list, as the spec describes it. Whenever sorting is requested the
  prices of the returned rows are monotonic, for every store and every combination of
  \<open>read_all\<close> and filters: non-increasing when descending order (from expensive to
  cheap) is requested, non-decreasing when ascending order is requested. For rows with
  the prices 1500, 25 and 59.99 the descending list of all products has the prices
  1500, 59.99, 25 and so starts with 1500, and the ascending one has 25, 59.99, 1500 and
  starts with 25.
\<close>

theorem product_list_prices_monotonic:
  "sorted (rev (map v_price
       (product_list read_all select_by_category select_by_date (Some True) s))) \<and>
   sorted (map v_price
       (product_list read_all select_by_category select_by_date (Some False) s)) \<and>
   (map v_price (joined s) = [1500, 25, 5999 / 100] \<longrightarrow>
      map v_price (product_list True select_by_category select_by_date (Some True) s) =
        [1500, 5999 / 100, 25] \<and>
      hd (map v_price (product_list True select_by_category select_by_date (Some True) s)) =
        1500 \<and>
      map v_price (product_list True select_by_category select_by_date (Some False) s) =
        [25, 5999 / 100, 1500] \<and>
      hd (map v_price (product_list True select_by_category select_by_date (Some False) s)) =
        25)"
proof (intro conjI impI)
  show "sorted (rev (map v_price
       (product_list read_all select_by_category select_by_date (Some True) s)))"
    by (simp add: product_list_def Let_def sorted_prices_descending)
  show "sorted (map v_price
       (product_list read_all select_by_category select_by_date (Some False) s))"
    by (simp add: product_list_def Let_def sorted_sort_key)
next
  assume p: "map v_price (joined s) = [1500, 25, 5999 / 100]"
  have "map v_price (sort_key (\<lambda>v. - v_price v) (joined s)) = [1500, 5999 / 100, 25]"
    using p by (simp add: prices_descending)
  then show d: "map v_price
      (product_list True select_by_category select_by_date (Some True) s) =
        [1500, 5999 / 100, 25]"
    by (simp add: product_list_def)
  then show "hd (map v_price
      (product_list True select_by_category select_by_date (Some True) s)) = 1500"
    by simp
  have "map v_price (sort_key v_price (joined s)) = [25, 5999 / 100, 1500]"
    using p by (simp add: map_sort_key)
  then show a: "map v_price
      (product_list True select_by_category select_by_date (Some False) s) =
        [25, 5999 / 100, 1500]"
    by (simp add: product_list_def)
  then show "hd (map v_price
      (product_list True select_by_category select_by_date (Some False) s)) = 25"
    by simp
qed

theorem product_list_prices_monotonic_witness:
  "map v_price (joined priced) = [1500, 25, 5999 / 100] \<and>
   map v_name (product_list True None None (Some True) priced) =
     [''Laptop'', ''Jeans'', ''Mouse''] \<and>
   map v_price (product_list True None None (Some True) priced) = [1500, 5999 / 100, 25] \<and>
   map v_price (product_list True None None (Some False) priced) = [25, 5999 / 100, 1500] \<and>
   map v_price (product_list False (Some ''Tech'') None (Some False) priced) = [25, 1500]"
proof -
  have j: "map v_price (joined priced) = [1500, 25, 5999 / 100]"
    by (simp add: joined_def view_def sample_defs)
  have n: "map v_name (product_list True None None (Some True) priced) =
     [''Laptop'', ''Jeans'', ''Mouse'']"
    by (simp add: product_list_def joined_def view_def sample_defs)
  have t: "map v_price (product_list False (Some ''Tech'') None (Some False) priced) = [25, 1500]"
    by (simp add: product_list_def joined_def view_def matches_def sample_defs)
  from product_list_prices_monotonic [of True None None priced] j
  have "map v_price (product_list True None None (Some True) priced) = [1500, 5999 / 100, 25] \<and>
     map v_price (product_list True None None (Some False) priced) = [25, 5999 / 100, 1500]"
    by blast
  with j n t show ?thesis by simp
qed

end
